theory Spec2Isabelle
  imports Main "HOL-Library.AList" "HOL-Library.Monad_Syntax"
begin

section \<open>Strings\<close>

text \<open>
  A Python \<open>str\<close> is modelled as a \<open>string\<close>: one \<open>char\<close> per code point, for
  the code points below 256. On that range the whitespace characters of
  \<open>str.split()\<close> and \<open>str.strip()\<close> are the ten ASCII ones (tab to carriage return,
  the four separators 0x1C to 0x1F, the space) and the two Latin-1 ones (0x85, 0xA0); the
  characters matched by \<open>\d\<close> are the ten ASCII digits.
\<close>

definition whitespace_chars :: "char list" where
  "whitespace_chars =
     [CHR 0x09, CHR 0x0A, CHR 0x0B, CHR 0x0C, CHR 0x0D,
      CHR 0x1C, CHR 0x1D, CHR 0x1E, CHR 0x1F, CHR 0x20, CHR 0x85, CHR 0xA0]"

definition isspace :: "char \<Rightarrow> bool" where
  "isspace c = (c \<in> set whitespace_chars)"

text \<open>\<open>text.replace(old, new)\<close> for one-character \<open>old\<close> and \<open>new\<close>.\<close>

definition replace_char :: "char \<Rightarrow> char \<Rightarrow> string \<Rightarrow> string" where
  "replace_char old new s = map (\<lambda>c. if c = old then new else c) s"

text \<open>
  \<open>text.split()\<close> without argument: the maximal runs of non-whitespace characters, in
  order. The scan keeps the word read so far in \<open>w\<close>.
\<close>

fun split_scan :: "string \<Rightarrow> string \<Rightarrow> string list" where
  "split_scan w [] = (if w = [] then [] else [w])"
| "split_scan w (c # cs) =
     (if isspace c then (if w = [] then split_scan [] cs else w # split_scan [] cs)
      else split_scan (w @ [c]) cs)"

definition split_ws :: "string \<Rightarrow> string list" where
  "split_ws s = split_scan [] s"

text \<open>\<open>sep.join(parts)\<close>.\<close>

fun join :: "string \<Rightarrow> string list \<Rightarrow> string" where
  "join sep [] = []"
| "join sep (p # ps) = (if ps = [] then p else p @ sep @ join sep ps)"

text \<open>\<open>text.strip()\<close>: whitespace removed at both ends.\<close>

definition strip :: "string \<Rightarrow> string" where
  "strip s = rev (dropWhile isspace (rev (dropWhile isspace s)))"

section \<open>Text normalizer: \<open>clean_text\<close>\<close>

text \<open>
  \<open>clean_text\<close> receives any Python value. Only the distinction the function makes is
  kept: a \<open>str\<close>, or anything else (carried as a value of an arbitrary type).
\<close>

datatype 'a pyval = Str string | NonStr 'a

definition clean_str :: "string \<Rightarrow> string" where
  "clean_str t = strip (join '' '' (split_ws (replace_char (CHR 0x0A) (CHR '' '') t)))"

fun clean_text :: "'a pyval \<Rightarrow> 'a pyval" where
  "clean_text (Str t) = Str (clean_str t)"
| "clean_text (NonStr v) = NonStr v"

section \<open>Errors\<close>

text \<open>
  The exceptions the code can raise, as values. \<open>AttributeError\<close> is what
  \<open>match.groups()\<close> raises when \<open>re.match\<close> returned \<open>None\<close>; \<open>ValueError\<close> is
  what \<open>max\<close> raises on an empty sequence; \<open>IndexError\<close> is a list index (or
  \<open>df.iloc[0]\<close>) out of range; \<open>KeyError\<close> is a missing dictionary key;
  \<open>ExternalServiceError\<close> stands for whatever the page renderer or the table detection
  service raises.
\<close>

datatype error = AttributeError | ValueError | IndexError | KeyError | ExternalServiceError

text \<open>A \<open>for\<close> loop whose body may raise: the first error ends the loop.\<close>

fun foldE :: "('a \<Rightarrow> 's \<Rightarrow> error + 's) \<Rightarrow> 'a list \<Rightarrow> 's \<Rightarrow> error + 's" where
  "foldE f [] s = Inr s"
| "foldE f (x # xs) s = (case f x s of Inl e \<Rightarrow> Inl e | Inr s' \<Rightarrow> foldE f xs s')"

section \<open>Grid expander: \<open>create_expanded_dataframe\<close>\<close>

text \<open>
  A parsed cell is the tuple \<open>(row, col, rowspan, colspan, text)\<close>; the numbers are
  Python integers.
\<close>

type_synonym cell = "int \<times> int \<times> int \<times> int \<times> string"

definition cell_row :: "cell \<Rightarrow> int" where
  "cell_row cell = (case cell of (row, col, rowspan, colspan, text) \<Rightarrow> row)"

definition cell_col :: "cell \<Rightarrow> int" where
  "cell_col cell = (case cell of (row, col, rowspan, colspan, text) \<Rightarrow> col)"

definition cell_rowspan :: "cell \<Rightarrow> int" where
  "cell_rowspan cell = (case cell of (row, col, rowspan, colspan, text) \<Rightarrow> rowspan)"

definition cell_colspan :: "cell \<Rightarrow> int" where
  "cell_colspan cell = (case cell of (row, col, rowspan, colspan, text) \<Rightarrow> colspan)"

definition cell_text :: "cell \<Rightarrow> string" where
  "cell_text cell = (case cell of (row, col, rowspan, colspan, text) \<Rightarrow> text)"

type_synonym table = "string list list"

text \<open>\<open>max(...)\<close> of a sequence of integers: \<open>ValueError\<close> when it is empty.\<close>

fun py_max :: "int list \<Rightarrow> error + int" where
  "py_max [] = Inl ValueError"
| "py_max (x # xs) = Inr (fold max xs x)"

text \<open>\<open>range(n)\<close>: empty when \<open>n \<le> 0\<close>.\<close>

definition py_range :: "int \<Rightarrow> int list" where
  "py_range n = [0..n - 1]"

text \<open>
  The position a Python list of length \<open>n\<close> gives to index \<open>i\<close>: a negative index
  counts from the end, and an index outside \<open>[-n, n)\<close> has no position.
\<close>

definition py_index :: "nat \<Rightarrow> int \<Rightarrow> nat option" where
  "py_index n i =
     (if 0 \<le> i \<and> i < int n then Some (nat i)
      else if i < 0 \<and> - int n \<le> i then Some (nat (i + int n))
      else None)"

text \<open>
  \<open>table[i][j] = text\<close>: \<open>table[i]\<close> is read first, then its item \<open>j\<close> is assigned.
  The rows of \<open>table\<close> are distinct list objects, so only one row changes.
\<close>

definition set_item :: "table \<Rightarrow> int \<Rightarrow> int \<Rightarrow> string \<Rightarrow> error + table" where
  "set_item table i j text =
     (case py_index (length table) i of
        None \<Rightarrow> Inl IndexError
      | Some a \<Rightarrow>
          (case py_index (length (table ! a)) j of
             None \<Rightarrow> Inl IndexError
           | Some b \<Rightarrow> Inr (table[a := (table ! a)[b := text]])))"

text \<open>The two inner loops of \<open>create_expanded_dataframe\<close>, for one cell.\<close>

definition apply_cell :: "cell \<Rightarrow> table \<Rightarrow> error + table" where
  "apply_cell cell table =
     (case cell of (row, col, rowspan, colspan, text) \<Rightarrow>
        foldE (\<lambda>r. foldE (\<lambda>c t. set_item t (row - 1 + r) (col - 1 + c) text) (py_range colspan))
          (py_range rowspan) table)"

text \<open>
  Lines 112 to 120 of \<open>utils.py\<close>: the maxima, the grid of empty strings, the loop over
  the cells. The result is the local variable \<open>table\<close>.
\<close>

definition expand_grid :: "cell list \<Rightarrow> error + table" where
  "expand_grid cells =
     (case py_max (map cell_row cells) of
        Inl e \<Rightarrow> Inl e
      | Inr max_row \<Rightarrow>
          (case py_max (map cell_col cells) of
             Inl e \<Rightarrow> Inl e
           | Inr max_col \<Rightarrow>
               foldE apply_cell cells (replicate (nat max_row) (replicate (nat max_col) ''''))))"

text \<open>
  The data frame is kept as its column labels and its rows. \<open>df.iloc[0]\<close> raises
  \<open>IndexError\<close> on a frame without rows; otherwise the first row of the grid becomes the
  column labels and is dropped from the rows.
\<close>

type_synonym dataframe = "string list \<times> string list list"

definition create_expanded_dataframe :: "cell list \<Rightarrow> error + dataframe" where
  "create_expanded_dataframe cells =
     (case expand_grid cells of
        Inl e \<Rightarrow> Inl e
      | Inr table \<Rightarrow>
          (case table of
             [] \<Rightarrow> Inl IndexError
           | header # rows \<Rightarrow> Inr (header, rows)))"

section \<open>Cell model: \<open>parse_cells\<close>\<close>

text \<open>
  A raw cell is kept as the string \<open>str(cell)\<close>. The pattern of \<open>re.match\<close> is
  \<^verbatim>\<open><Cell: \((\d+),(\d+)\), Span: \((\d+), (\d+)\), Column Header: (True|False), MergedCell: (True|False)>\<close>
  matched at the start of the string. After a greedy \<open>\d+\<close> the pattern continues with a
  character that is not a digit, and the two alternatives of \<open>(True|False)\<close> start
  differently, so matching needs no backtracking: it reads the pieces from left to right.
\<close>

definition is_digit :: "char \<Rightarrow> bool" where
  "is_digit c = (c \<in> set ''0123456789'')"

definition digit_value :: "char \<Rightarrow> int" where
  "digit_value c = int (of_char c) - 48"

text \<open>\<open>int(s)\<close> for a non-empty string of digits.\<close>

definition py_int :: "string \<Rightarrow> int" where
  "py_int ds = foldl (\<lambda>n c. 10 * n + digit_value c) 0 ds"

text \<open>A literal piece of the pattern: the rest of the string after it, if it is there.\<close>

definition expect :: "string \<Rightarrow> string \<Rightarrow> string option" where
  "expect lit s = (if take (length lit) s = lit then Some (drop (length lit) s) else None)"

text \<open>The group \<open>(\d+)\<close>: its integer value and the rest of the string.\<close>

definition digits :: "string \<Rightarrow> (int \<times> string) option" where
  "digits s =
     (case takeWhile is_digit s of
        [] \<Rightarrow> None
      | d # ds \<Rightarrow> Some (py_int (d # ds), dropWhile is_digit s))"

text \<open>The group \<open>(True|False)\<close>; its value is not used.\<close>

definition true_or_false :: "string \<Rightarrow> string option" where
  "true_or_false s = (case expect ''True'' s of Some r \<Rightarrow> Some r | None \<Rightarrow> expect ''False'' s)"

definition match_cell :: "string \<Rightarrow> (int \<times> int \<times> int \<times> int) option" where
  "match_cell s = do {
     s1 \<leftarrow> expect ''<Cell: ('' s;
     (row, s2) \<leftarrow> digits s1;
     s3 \<leftarrow> expect '','' s2;
     (col, s4) \<leftarrow> digits s3;
     s5 \<leftarrow> expect ''), Span: ('' s4;
     (rowspan, s6) \<leftarrow> digits s5;
     s7 \<leftarrow> expect '', '' s6;
     (colspan, s8) \<leftarrow> digits s7;
     s9 \<leftarrow> expect ''), Column Header: '' s8;
     s10 \<leftarrow> true_or_false s9;
     s11 \<leftarrow> expect '', MergedCell: '' s10;
     s12 \<leftarrow> true_or_false s11;
     s13 \<leftarrow> expect ''>'' s12;
     Some (row, col, rowspan, colspan)
   }"

text \<open>\<open>s.split(sep)\<close> for a one-character separator: empty pieces are kept.\<close>

fun split_char :: "char \<Rightarrow> string \<Rightarrow> string list" where
  "split_char sep [] = [[]]"
| "split_char sep (c # cs) =
     (if c = sep then [] # split_char sep cs
      else (case split_char sep cs of [] \<Rightarrow> [[c]] | p # ps \<Rightarrow> (c # p) # ps))"

text \<open>
  The body of the loop of \<open>parse_cells\<close>. Without a match \<open>match.groups()\<close> raises
  \<open>AttributeError\<close>; \<open>str(cell).split('>')[1]\<close> raises \<open>IndexError\<close> when there is no
  second piece.
\<close>

definition parse_cell :: "string \<Rightarrow> error + cell" where
  "parse_cell s =
     (case match_cell s of
        None \<Rightarrow> Inl AttributeError
      | Some (row, col, rowspan, colspan) \<Rightarrow>
          (case split_char (CHR ''>'') s of
             p0 # p1 # ps \<Rightarrow> Inr (row, col, rowspan, colspan, strip p1)
           | _ \<Rightarrow> Inl IndexError))"

fun parse_cells :: "string list \<Rightarrow> error + cell list" where
  "parse_cells [] = Inr []"
| "parse_cells (raw # raws) =
     (case parse_cell raw of
        Inl e \<Rightarrow> Inl e
      | Inr cell \<Rightarrow>
          (case parse_cells raws of Inl e \<Rightarrow> Inl e | Inr cells \<Rightarrow> Inr (cell # cells)))"

section \<open>Document assembler: \<open>prepare_counter\<close> and \<open>create_parsed_dictionary\<close>\<close>

text \<open>
  What the page renderer and the table detection service answer for a \<open>Table\<close> element
  is a fact about the document, carried by the element: either one of the two calls
  raises, or the service returns \<open>document.tables\<close>, each table being the list of its raw
  cells.
\<close>

datatype detection = ServiceFailure | Tables "string list list"

record element =
  el_category :: string
  el_text :: string
  el_page_number :: int
  el_tables :: detection

text \<open>The dictionary key \<^verbatim>\<open>f"page_{n}"\<close>.\<close>

datatype page_key = Page int

text \<open>
  A Python dictionary keeps its keys in insertion order and assigning to a key that
  exists keeps its place: an association list with \<open>AList.update\<close>.
\<close>

type_synonym document = "(page_key \<times> string) list"

record state =
  parsed_doc :: document
  curr_page :: page_key
  page_number :: int

text \<open>A \<open>Counter\<close> answers 0 for a key it does not have.\<close>

type_synonym counter = "string \<Rightarrow> nat"

definition prepare_counter :: "element list \<Rightarrow> counter" where
  "prepare_counter elements =
     (let titles_text = map el_text (filter (\<lambda>el. el_category el = ''Title'') elements);
          text_text = map el_text (filter (\<lambda>el. el_category el = ''Text'') elements);
          narrtext_text = map el_text (filter (\<lambda>el. el_category el = ''NarrativeText'') elements);
          all_text = titles_text @ narrtext_text @ text_text
      in count_list all_text)"

text \<open>\<open>parsed_doc[k] += s\<close>: the key is read first, \<open>KeyError\<close> when it is missing.\<close>

definition append_page :: "page_key \<Rightarrow> string \<Rightarrow> document \<Rightarrow> error + document" where
  "append_page k s doc =
     (case map_of doc k of
        None \<Rightarrow> Inl KeyError
      | Some v \<Rightarrow> Inr (AList.update k (v @ s) doc))"

text \<open>
  The two statements \<open>parsed_doc[curr_page] += el.text\<close> and
  \<open>parsed_doc[curr_page] += sep\<close>.
\<close>

definition add_text :: "string \<Rightarrow> string \<Rightarrow> state \<Rightarrow> error + state" where
  "add_text t sep st =
     (case append_page (curr_page st) t (parsed_doc st) of
        Inl e \<Rightarrow> Inl e
      | Inr d \<Rightarrow>
          (case append_page (curr_page st) sep d of
             Inl e \<Rightarrow> Inl e
           | Inr d' \<Rightarrow> Inr (st\<lparr>parsed_doc := d'\<rparr>)))"

text \<open>
  One detected table, from its raw cells to its rendered text: \<open>parse_cells\<close>,
  \<open>create_expanded_dataframe\<close>, \<open>clean_text\<close> on every value and on every column label
  (all of them strings), \<open>to_markdown\<close>. The renderer \<open>to_markdown\<close> belongs to pandas
  and is a parameter.
\<close>

definition table_markdown ::
  "(string list \<Rightarrow> string list list \<Rightarrow> string) \<Rightarrow> string list \<Rightarrow> error + string" where
  "table_markdown to_markdown raw_cells =
     (case parse_cells raw_cells of
        Inl e \<Rightarrow> Inl e
      | Inr parsed_cells \<Rightarrow>
          (case create_expanded_dataframe parsed_cells of
             Inl e \<Rightarrow> Inl e
           | Inr (columns, rows) \<Rightarrow>
               Inr (to_markdown (map clean_str columns) (map (map clean_str) rows))))"

text \<open>The body of the loop over \<open>document.tables\<close>.\<close>

definition add_table ::
  "(string list \<Rightarrow> string list list \<Rightarrow> string) \<Rightarrow> page_key \<Rightarrow> string list \<Rightarrow> document
     \<Rightarrow> error + document" where
  "add_table to_markdown k raw_cells doc =
     (case table_markdown to_markdown raw_cells of
        Inl e \<Rightarrow> Inl e
      | Inr rendered \<Rightarrow>
          (case append_page k rendered doc of
             Inl e \<Rightarrow> Inl e
           | Inr d \<Rightarrow> append_page k [CHR 0x0A] d))"

text \<open>The body of the loop of \<open>create_parsed_dictionary\<close>, one element.\<close>

definition step ::
  "(string list \<Rightarrow> string list list \<Rightarrow> string) \<Rightarrow> counter \<Rightarrow> element \<Rightarrow> state \<Rightarrow> error + state" where
  "step to_markdown all_counter el st =
     (if el_category el = ''PageBreak'' then
        Inr \<lparr>parsed_doc = AList.update (Page (page_number st + 1)) '''' (parsed_doc st),
             curr_page = Page (page_number st + 1),
             page_number = page_number st + 1\<rparr>
      else if el_category el = ''ListItem'' then
        (if all_counter (el_text el) < 10 \<and> all_counter (el_text el) \<noteq> 0
         then add_text (el_text el) [CHR 0x0A] st else Inr st)
      else if el_category el = ''NarrativeText'' then
        (if all_counter (el_text el) < 10 \<and> all_counter (el_text el) \<noteq> 0
         then add_text (el_text el) '' '' st else Inr st)
      else if el_category el = ''Table'' then
        (case append_page (curr_page st) [CHR 0x0A] (parsed_doc st) of
           Inl e \<Rightarrow> Inl e
         | Inr d \<Rightarrow>
             (case el_tables el of
                ServiceFailure \<Rightarrow> Inl ExternalServiceError
              | Tables tables \<Rightarrow>
                  (case foldE (add_table to_markdown (curr_page st)) tables d of
                     Inl e \<Rightarrow> Inl e
                   | Inr d' \<Rightarrow>
                       Inr \<lparr>parsed_doc = d', curr_page = curr_page st,
                            page_number = el_page_number el\<rparr>)))
      else if el_category el = ''Text'' then
        (if all_counter (el_text el) < 10 \<and> all_counter (el_text el) \<noteq> 0
         then add_text (el_text el) '' '' st else Inr st)
      else if el_category el = ''Title'' then
        (if page_number st = 1 then add_text (el_text el) [CHR 0x0A] st
         else if all_counter (el_text el) < 10 \<and> all_counter (el_text el) \<noteq> 0
         then add_text (el_text el) [CHR 0x0A] st else Inr st)
      else Inr st)"

definition initial_state :: state where
  "initial_state = \<lparr>parsed_doc = [(Page 1, '''')], curr_page = Page 1, page_number = 1\<rparr>"

text \<open>The loop over the elements: the state after them, or the error that ended it.\<close>

definition run_elements ::
  "(string list \<Rightarrow> string list list \<Rightarrow> string) \<Rightarrow> counter \<Rightarrow> element list \<Rightarrow> error + state" where
  "run_elements to_markdown all_counter elements =
     foldE (step to_markdown all_counter) elements initial_state"

text \<open>
  \<open>create_parsed_dictionary(elements, all_counter, pdf_path)\<close>. The path is used by the
  external calls only, whose answers the elements carry.
\<close>

definition create_parsed_dictionary ::
  "(string list \<Rightarrow> string list list \<Rightarrow> string) \<Rightarrow> element list \<Rightarrow> counter \<Rightarrow> error + document" where
  "create_parsed_dictionary to_markdown elements all_counter =
     (case run_elements to_markdown all_counter elements of
        Inl e \<Rightarrow> Inl e
      | Inr st \<Rightarrow> Inr (filter (\<lambda>(k, v). v \<noteq> '''') (parsed_doc st)))"

text \<open>
  The error, if any, that the processing of a \<open>Table\<close> element raises on its own account:
  the failure of the external calls, or the first error among its detected tables.
\<close>

fun first_error :: "(error + 'a) list \<Rightarrow> error option" where
  "first_error [] = None"
| "first_error (Inl e # xs) = Some e"
| "first_error (Inr v # xs) = first_error xs"

definition table_error ::
  "(string list \<Rightarrow> string list list \<Rightarrow> string) \<Rightarrow> element \<Rightarrow> error option" where
  "table_error to_markdown el =
     (case el_tables el of
        ServiceFailure \<Rightarrow> Some ExternalServiceError
      | Tables tables \<Rightarrow> first_error (map (table_markdown to_markdown) tables))"

text \<open>The current page is a key of the document, and no key occurs twice.\<close>

definition wf_state :: "state \<Rightarrow> bool" where
  "wf_state st =
     (curr_page st \<in> fst ` set (parsed_doc st) \<and> distinct (map fst (parsed_doc st)))"

section \<open>Notions used in the statements\<close>

text \<open>
  The footprint of a cell is \<open>[row-1, row-1+rowspan) \<times> [col-1, col-1+colspan)\<close>;
  \<open>covers cell r c\<close> says that it contains the grid position \<open>(r, c)\<close>.
\<close>

definition covers :: "cell \<Rightarrow> nat \<Rightarrow> nat \<Rightarrow> bool" where
  "covers cell r c =
     (cell_row cell - 1 \<le> int r \<and> int r < cell_row cell - 1 + cell_rowspan cell \<and>
      cell_col cell - 1 \<le> int c \<and> int c < cell_col cell - 1 + cell_colspan cell)"

text \<open>
  Every position of the footprint lies in \<open>[0, max_row) \<times> [0, max_col)\<close>: the footprint
  is empty, or its first and last row and column are inside.
\<close>

definition footprint_inside :: "int \<Rightarrow> int \<Rightarrow> cell \<Rightarrow> bool" where
  "footprint_inside max_row max_col cell =
     (cell_rowspan cell \<le> 0 \<or> cell_colspan cell \<le> 0 \<or>
      (1 \<le> cell_row cell \<and> cell_row cell - 1 + cell_rowspan cell \<le> max_row \<and>
       1 \<le> cell_col cell \<and> cell_col cell - 1 + cell_colspan cell \<le> max_col))"

text \<open>The last cell, in input order, whose footprint contains \<open>(r, c)\<close>.\<close>

definition last_covering :: "cell list \<Rightarrow> nat \<Rightarrow> nat \<Rightarrow> cell option" where
  "last_covering cells r c = find (\<lambda>cell. covers cell r c) (rev cells)"

text \<open>A grid of \<open>n\<close> rows with \<open>m\<close> columns each.\<close>

definition dims :: "nat \<Rightarrow> nat \<Rightarrow> table \<Rightarrow> bool" where
  "dims n m t = (length t = n \<and> (\<forall>rw\<in>set t. length rw = m))"

text \<open>A non-empty run of non-whitespace characters.\<close>

definition word :: "string \<Rightarrow> bool" where
  "word w = (w \<noteq> [] \<and> (\<forall>c\<in>set w. \<not> isspace c))"

text \<open>
  What a loop of assignments does to a grid of \<open>n\<close> rows and \<open>m\<close> columns: when \<open>ok\<close>
  holds it returns a grid of the same size whose position \<open>(a, b)\<close> holds \<open>upd a b\<close> of
  the old content, and otherwise it raises \<open>IndexError\<close>.
\<close>

definition paints :: "nat \<Rightarrow> nat \<Rightarrow> (table \<Rightarrow> error + table) \<Rightarrow> bool \<Rightarrow> (nat \<Rightarrow> nat \<Rightarrow> string \<Rightarrow> string) \<Rightarrow> bool" where
  "paints n m f ok upd =
     (\<forall>t. dims n m t \<longrightarrow>
        (if ok then (\<exists>t'. f t = Inr t' \<and> dims n m t' \<and>
                      (\<forall>a<n. \<forall>b<m. t' ! a ! b = upd a b (t ! a ! b)))
         else f t = Inl IndexError))"

text \<open>
  Every index that the loops of one cell use has a position in a grid of \<open>n\<close> rows and
  \<open>m\<close> columns.
\<close>

definition cell_ok :: "nat \<Rightarrow> nat \<Rightarrow> cell \<Rightarrow> bool" where
  "cell_ok n m cell =
     (\<forall>r\<in>set (py_range (cell_rowspan cell)). \<forall>c\<in>set (py_range (cell_colspan cell)).
        py_index n (cell_row cell - 1 + r) \<noteq> None \<and> py_index m (cell_col cell - 1 + c) \<noteq> None)"

text \<open>The loops of one cell assign to position \<open>(a, b)\<close> of such a grid.\<close>

definition cell_hits :: "nat \<Rightarrow> nat \<Rightarrow> cell \<Rightarrow> nat \<Rightarrow> nat \<Rightarrow> bool" where
  "cell_hits n m cell a b =
     (\<exists>r\<in>set (py_range (cell_rowspan cell)). \<exists>c\<in>set (py_range (cell_colspan cell)).
        py_index n (cell_row cell - 1 + r) = Some a \<and> py_index m (cell_col cell - 1 + c) = Some b)"

section \<open>Properties of the text normalizer\<close>

lemma isspace_space: "isspace (CHR '' '')"
  by (simp add: isspace_def whitespace_chars_def)

lemma isspace_newline: "isspace (CHR 0x0A)"
  by (simp add: isspace_def whitespace_chars_def)

lemma split_scan_words:
  "w = [] \<or> word w \<Longrightarrow> \<forall>u\<in>set (split_scan w s). word u"
proof (induction s arbitrary: w)
  case Nil
  then show ?case by auto
next
  case (Cons c cs)
  show ?case
  proof (cases "isspace c")
    case True
    have "\<forall>u\<in>set (split_scan [] cs). word u"
      by (rule Cons.IH) simp
    with True Cons.prems show ?thesis by auto
  next
    case False
    with Cons.prems have "word (w @ [c])"
      by (auto simp: word_def)
    then have "\<forall>u\<in>set (split_scan (w @ [c]) cs). word u"
      by (intro Cons.IH) simp
    with False show ?thesis by simp
  qed
qed

lemma split_ws_words: "\<forall>u\<in>set (split_ws s). word u"
  unfolding split_ws_def by (rule split_scan_words) simp

lemma split_scan_nonspace:
  "\<forall>c\<in>set u. \<not> isspace c \<Longrightarrow> split_scan w (u @ r) = split_scan (w @ u) r"
  by (induction u arbitrary: w) auto

lemma split_scan_join:
  "\<forall>u\<in>set ws. word u \<Longrightarrow> ws \<noteq> [] \<Longrightarrow>
     split_scan w (join '' '' ws) = (w @ hd ws) # tl ws"
proof (induction ws arbitrary: w)
  case Nil
  then show ?case by simp
next
  case (Cons p ps)
  have p: "\<forall>c\<in>set p. \<not> isspace c" and "p \<noteq> []"
    using Cons.prems(1) by (simp_all add: word_def)
  show ?case
  proof (cases "ps = []")
    case True
    have "split_scan w (p @ []) = split_scan (w @ p) []"
      using p by (rule split_scan_nonspace)
    with True \<open>p \<noteq> []\<close> show ?thesis by simp
  next
    case False
    have "split_scan w (p @ '' '' @ join '' '' ps) = split_scan (w @ p) ('' '' @ join '' '' ps)"
      using p by (rule split_scan_nonspace)
    also have "\<dots> = (w @ p) # split_scan [] (join '' '' ps)"
      using \<open>p \<noteq> []\<close> by (simp add: isspace_space)
    also have "split_scan [] (join '' '' ps) = ps"
      using Cons.IH[of "[]"] Cons.prems(1) False by simp
    finally show ?thesis using False by simp
  qed
qed

lemma split_ws_join: "\<forall>u\<in>set ws. word u \<Longrightarrow> split_ws (join '' '' ws) = ws"
  by (cases "ws = []") (simp_all add: split_ws_def split_scan_join)

lemma join_no_newline:
  "\<forall>u\<in>set ws. word u \<Longrightarrow> CHR 0x0A \<notin> set (join '' '' ws)"
  using isspace_newline by (induction ws) (auto simp: word_def)

lemma replace_char_absent: "old \<notin> set s \<Longrightarrow> replace_char old new s = s"
  by (induction s) (auto simp: replace_char_def)

lemma join_ends:
  "\<forall>u\<in>set ws. word u \<Longrightarrow> ws \<noteq> [] \<Longrightarrow>
     join '' '' ws \<noteq> [] \<and> \<not> isspace (hd (join '' '' ws)) \<and> \<not> isspace (last (join '' '' ws))"
proof (induction ws)
  case Nil
  then show ?case by simp
next
  case (Cons p ps)
  then have p: "p \<noteq> []" "\<not> isspace (hd p)" "\<not> isspace (last p)"
    by (simp_all add: word_def)
  show ?case
  proof (cases "ps = []")
    case True
    with p show ?thesis by simp
  next
    case False
    with Cons have "join '' '' ps \<noteq> []" "\<not> isspace (last (join '' '' ps))"
      by simp_all
    with p False show ?thesis by simp
  qed
qed

lemma dropWhile_keeps: "xs = [] \<or> \<not> P (hd xs) \<Longrightarrow> dropWhile P xs = xs"
  by (cases xs) auto

lemma strip_fixed:
  assumes "s = [] \<or> (\<not> isspace (hd s) \<and> \<not> isspace (last s))"
  shows "strip s = s"
proof -
  have "dropWhile isspace s = s"
    using assms by (intro dropWhile_keeps) auto
  moreover have "dropWhile isspace (rev s) = rev s"
    using assms by (intro dropWhile_keeps) (auto simp: hd_rev)
  ultimately show ?thesis by (simp add: strip_def)
qed

lemma strip_join: "\<forall>u\<in>set ws. word u \<Longrightarrow> strip (join '' '' ws) = join '' '' ws"
  by (cases "ws = []") (simp add: strip_def, rule strip_fixed, simp add: join_ends)

lemma clean_str_join: "clean_str t = join '' '' (split_ws (replace_char (CHR 0x0A) (CHR '' '') t))"
  unfolding clean_str_def by (rule strip_join) (rule split_ws_words)

lemma clean_str_idem: "clean_str (clean_str t) = clean_str t"
proof -
  define ws where "ws = split_ws (replace_char (CHR 0x0A) (CHR '' '') t)"
  have w: "\<forall>u\<in>set ws. word u"
    unfolding ws_def by (rule split_ws_words)
  have c: "clean_str t = join '' '' ws"
    unfolding ws_def by (rule clean_str_join)
  have "replace_char (CHR 0x0A) (CHR '' '') (join '' '' ws) = join '' '' ws"
    using w by (intro replace_char_absent join_no_newline)
  then have "clean_str (join '' '' ws) = strip (join '' '' (split_ws (join '' '' ws)))"
    by (simp add: clean_str_def)
  also have "\<dots> = strip (join '' '' ws)"
    using w by (simp add: split_ws_join)
  also have "\<dots> = join '' '' ws"
    using w by (rule strip_join)
  finally show ?thesis by (simp add: c)
qed

text \<open>
  C7. The text normalizer is idempotent on every input, string or not: normalizing a
  second time changes nothing.
\<close>

theorem clean_text_idempotent: "clean_text (clean_text x) = clean_text x"
  by (cases x) (simp_all add: clean_str_idem)

section \<open>Properties of the grid expander\<close>

lemma py_index_less: "py_index n i = Some a \<Longrightarrow> a < n"
  by (auto simp: py_index_def split: if_splits)

lemma dims_update:
  "dims n m t \<Longrightarrow> a < n \<Longrightarrow> dims n m (t[a := (t ! a)[b := x]])"
  by (auto simp: dims_def dest!: set_update_subset_insert[THEN subsetD])

lemma paints_set_item:
  "paints n m (\<lambda>t. set_item t i j x)
     (py_index n i \<noteq> None \<and> py_index m j \<noteq> None)
     (\<lambda>a b v. if py_index n i = Some a \<and> py_index m j = Some b then x else v)"
  unfolding paints_def
proof (intro allI impI)
  fix t assume d: "dims n m t"
  then have len: "length t = n" by (simp add: dims_def)
  show "if py_index n i \<noteq> None \<and> py_index m j \<noteq> None
        then \<exists>t'. set_item t i j x = Inr t' \<and> dims n m t' \<and>
               (\<forall>a<n. \<forall>b<m. t' ! a ! b =
                  (if py_index n i = Some a \<and> py_index m j = Some b then x else t ! a ! b))
        else set_item t i j x = Inl IndexError"
  proof (cases "py_index n i")
    case None
    then show ?thesis by (simp add: set_item_def len)
  next
    case (Some a)
    then have a: "a < n" by (rule py_index_less)
    with d have lr: "length (t ! a) = m" by (simp add: dims_def)
    show ?thesis
    proof (cases "py_index m j")
      case None
      with Some show ?thesis by (simp add: set_item_def len lr)
    next
      case (Some b)
      then have b: "b < m" by (rule py_index_less)
      have "set_item t i j x = Inr (t[a := (t ! a)[b := x]])"
        using \<open>py_index n i = Some a\<close> Some by (simp add: set_item_def len lr)
      moreover have "dims n m (t[a := (t ! a)[b := x]])"
        using d a by (rule dims_update)
      moreover have "\<forall>a'<n. \<forall>b'<m. t[a := (t ! a)[b := x]] ! a' ! b' =
                  (if a = a' \<and> b = b' then x else t ! a' ! b')"
      proof (intro allI impI)
        fix a' b' assume "a' < n" "b' < m"
        then show "t[a := (t ! a)[b := x]] ! a' ! b' = (if a = a' \<and> b = b' then x else t ! a' ! b')"
          using len lr b by (cases "a' = a") (simp_all add: nth_list_update)
      qed
      ultimately show ?thesis
        using \<open>py_index n i = Some a\<close> Some by simp
    qed
  qed
qed

lemma paints_foldE:
  "(\<And>k. k \<in> set ks \<Longrightarrow> paints n m (f k) (ok k) (upd k)) \<Longrightarrow>
   paints n m (foldE f ks) (\<forall>k\<in>set ks. ok k) (\<lambda>a b v. fold (\<lambda>k. upd k a b) ks v)"
proof (induction ks)
  case Nil
  then show ?case by (simp add: paints_def)
next
  case (Cons k ks)
  have k: "paints n m (f k) (ok k) (upd k)"
    by (rule Cons.prems) simp
  have rest: "paints n m (foldE f ks) (\<forall>k\<in>set ks. ok k) (\<lambda>a b v. fold (\<lambda>k. upd k a b) ks v)"
    by (rule Cons.IH) (simp add: Cons.prems)
  show ?case
    unfolding paints_def
  proof (intro allI impI)
    fix t assume d: "dims n m t"
    show "if \<forall>k\<in>set (k # ks). ok k
          then \<exists>t'. foldE f (k # ks) t = Inr t' \<and> dims n m t' \<and>
                 (\<forall>a<n. \<forall>b<m. t' ! a ! b = fold (\<lambda>k. upd k a b) (k # ks) (t ! a ! b))
          else foldE f (k # ks) t = Inl IndexError"
    proof (cases "ok k")
      case False
      with k d show ?thesis by (simp add: paints_def)
    next
      case True
      with k d obtain t1 where t1: "f k t = Inr t1" "dims n m t1"
        "\<forall>a<n. \<forall>b<m. t1 ! a ! b = upd k a b (t ! a ! b)"
        unfolding paints_def by auto
      show ?thesis
      proof (cases "\<forall>k\<in>set ks. ok k")
        case False
        with rest t1 have "foldE f ks t1 = Inl IndexError"
          unfolding paints_def by auto
        with False t1 show ?thesis by simp
      next
        case all: True
        with rest t1 obtain t' where "foldE f ks t1 = Inr t'" "dims n m t'"
          "\<forall>a<n. \<forall>b<m. t' ! a ! b = fold (\<lambda>k. upd k a b) ks (t1 ! a ! b)"
          unfolding paints_def by auto
        with t1 True all show ?thesis by simp
      qed
    qed
  qed
qed

lemma fold_same: "fold (\<lambda>k v. if P k then x else v) ks v = (if \<exists>k\<in>set ks. P k then x else v)"
  by (induction ks arbitrary: v) auto

lemma fold_last_wins:
  "fold (\<lambda>k v. if H k then T k else v) ks v =
     (case find H (rev ks) of None \<Rightarrow> v | Some k \<Rightarrow> T k)"
  by (induction ks rule: rev_induct) auto

lemma paints_cong:
  "paints n m f ok upd \<Longrightarrow> ok = ok' \<Longrightarrow> (\<And>a b v. upd a b v = upd' a b v) \<Longrightarrow>
   paints n m f ok' upd'"
proof -
  assume p: "paints n m f ok upd" and o: "ok = ok'" and u: "\<And>a b v. upd a b v = upd' a b v"
  from u have "upd = upd'" by (intro ext)
  with p o show ?thesis by simp
qed

lemma paints_apply_cell:
  "paints n m (apply_cell cell) (cell_ok n m cell)
     (\<lambda>a b v. if cell_hits n m cell a b then cell_text cell else v)"
proof -
  obtain row col rowspan colspan tx where cell: "cell = (row, col, rowspan, colspan, tx)"
    by (cases cell)
  let ?inner = "\<lambda>r. foldE (\<lambda>c t. set_item t (row - 1 + r) (col - 1 + c) tx) (py_range colspan)"
  have inner: "paints n m (?inner r)
      (\<forall>c\<in>set (py_range colspan). py_index n (row - 1 + r) \<noteq> None \<and> py_index m (col - 1 + c) \<noteq> None)
      (\<lambda>a b v. if \<exists>c\<in>set (py_range colspan).
                      py_index n (row - 1 + r) = Some a \<and> py_index m (col - 1 + c) = Some b
                then tx else v)" for r
    by (rule paints_cong[OF paints_foldE[where upd = "\<lambda>c a b v.
          if py_index n (row - 1 + r) = Some a \<and> py_index m (col - 1 + c) = Some b then tx else v"]])
       (rule paints_set_item, rule refl, rule fold_same)
  have "paints n m (foldE ?inner (py_range rowspan))
      (\<forall>r\<in>set (py_range rowspan). \<forall>c\<in>set (py_range colspan).
          py_index n (row - 1 + r) \<noteq> None \<and> py_index m (col - 1 + c) \<noteq> None)
      (\<lambda>a b v. if \<exists>r\<in>set (py_range rowspan). \<exists>c\<in>set (py_range colspan).
                      py_index n (row - 1 + r) = Some a \<and> py_index m (col - 1 + c) = Some b
                then tx else v)"
    by (rule paints_cong[OF paints_foldE[where upd = "\<lambda>r a b v.
          if \<exists>c\<in>set (py_range colspan).
               py_index n (row - 1 + r) = Some a \<and> py_index m (col - 1 + c) = Some b
          then tx else v"]])
       (rule inner, rule refl, rule fold_same)
  then show ?thesis
    unfolding cell apply_cell_def cell_ok_def cell_hits_def
      cell_row_def cell_col_def cell_rowspan_def cell_colspan_def cell_text_def prod.case
    by this
qed

lemma paints_cells:
  "paints n m (foldE apply_cell cells) (\<forall>cell\<in>set cells. cell_ok n m cell)
     (\<lambda>a b v. case find (\<lambda>cell. cell_hits n m cell a b) (rev cells) of
                 None \<Rightarrow> v | Some cell \<Rightarrow> cell_text cell)"
  by (rule paints_cong[OF paints_foldE[where upd = "\<lambda>cell a b v.
        if cell_hits n m cell a b then cell_text cell else v"]])
     (rule paints_apply_cell, rule refl, rule fold_last_wins)

lemma py_max_Max:
  assumes "xs \<noteq> []"
  shows "py_max xs = Inr (Max (set xs))"
proof -
  obtain x ys where xs: "xs = x # ys"
    using assms by (cases xs) auto
  show ?thesis using Max.set_eq_fold[of x ys] by (simp add: xs)
qed

lemma dims_replicate: "dims n m (replicate n (replicate m x))"
  by (simp add: dims_def)

lemma set_py_range: "r \<in> set (py_range k) \<longleftrightarrow> 0 \<le> r \<and> r < k"
  by (auto simp: py_range_def)

lemma py_index_nonneg: "0 \<le> i \<Longrightarrow> py_index n i = (if i < int n then Some (nat i) else None)"
  by (simp add: py_index_def)

lemma inside_ok:
  assumes "footprint_inside mr mc cell"
  shows "cell_ok (nat mr) (nat mc) cell"
  unfolding cell_ok_def
proof (intro ballI conjI)
  fix r c
  assume "r \<in> set (py_range (cell_rowspan cell))" "c \<in> set (py_range (cell_colspan cell))"
  then have r: "0 \<le> r" "r < cell_rowspan cell" and c: "0 \<le> c" "c < cell_colspan cell"
    by (simp_all add: set_py_range)
  with assms have b: "1 \<le> cell_row cell" "cell_row cell - 1 + cell_rowspan cell \<le> mr"
      "1 \<le> cell_col cell" "cell_col cell - 1 + cell_colspan cell \<le> mc"
    by (auto simp: footprint_inside_def)
  from b r show "py_index (nat mr) (cell_row cell - 1 + r) \<noteq> None"
    by (simp add: py_index_nonneg)
  from b c show "py_index (nat mc) (cell_col cell - 1 + c) \<noteq> None"
    by (simp add: py_index_nonneg)
qed

lemma ok_inside:
  assumes "1 \<le> cell_row cell" "1 \<le> cell_col cell" and ok: "cell_ok (nat mr) (nat mc) cell"
  shows "footprint_inside mr mc cell"
proof (cases "cell_rowspan cell \<le> 0 \<or> cell_colspan cell \<le> 0")
  case True
  then show ?thesis by (auto simp: footprint_inside_def)
next
  case False
  then have "cell_rowspan cell - 1 \<in> set (py_range (cell_rowspan cell))"
      "cell_colspan cell - 1 \<in> set (py_range (cell_colspan cell))"
    by (simp_all add: set_py_range)
  with ok have "py_index (nat mr) (cell_row cell - 1 + (cell_rowspan cell - 1)) \<noteq> None"
      "py_index (nat mc) (cell_col cell - 1 + (cell_colspan cell - 1)) \<noteq> None"
    unfolding cell_ok_def by blast+
  with assms(1,2) False show ?thesis
    by (auto simp: footprint_inside_def py_index_nonneg split: if_splits)
qed

lemma inside_hits:
  assumes "footprint_inside mr mc cell" "a < nat mr" "b < nat mc"
  shows "cell_hits (nat mr) (nat mc) cell a b = covers cell a b"
proof
  assume "cell_hits (nat mr) (nat mc) cell a b"
  then obtain r c where r: "0 \<le> r" "r < cell_rowspan cell" and c: "0 \<le> c" "c < cell_colspan cell"
    and h: "py_index (nat mr) (cell_row cell - 1 + r) = Some a"
           "py_index (nat mc) (cell_col cell - 1 + c) = Some b"
    by (auto simp: cell_hits_def set_py_range)
  from assms(1) r c have b: "1 \<le> cell_row cell" "1 \<le> cell_col cell"
    by (auto simp: footprint_inside_def)
  from h b r c have "int a = cell_row cell - 1 + r" "int b = cell_col cell - 1 + c"
    by (auto simp: py_index_nonneg split: if_splits)
  with r c show "covers cell a b"
    by (simp add: covers_def)
next
  assume cv: "covers cell a b"
  then have ne: "0 < cell_rowspan cell" "0 < cell_colspan cell"
    by (auto simp: covers_def)
  let ?r = "int a - (cell_row cell - 1)" and ?c = "int b - (cell_col cell - 1)"
  have "?r \<in> set (py_range (cell_rowspan cell))" "?c \<in> set (py_range (cell_colspan cell))"
    using cv by (auto simp: covers_def set_py_range)
  moreover have "py_index (nat mr) (cell_row cell - 1 + ?r) = Some a"
      "py_index (nat mc) (cell_col cell - 1 + ?c) = Some b"
    using assms(2,3) by (auto simp: py_index_nonneg)
  ultimately show "cell_hits (nat mr) (nat mc) cell a b"
    unfolding cell_hits_def by blast
qed

lemma expand_grid_unfold:
  assumes "cells \<noteq> []"
  shows "expand_grid cells =
     foldE apply_cell cells
       (replicate (nat (Max (cell_row ` set cells))) (replicate (nat (Max (cell_col ` set cells))) ''''))"
  using assms by (simp add: expand_grid_def py_max_Max)

lemma expand_grid_fails:
  assumes "cells \<noteq> []"
    and "\<not> (\<forall>cell\<in>set cells. cell_ok (nat (Max (cell_row ` set cells))) (nat (Max (cell_col ` set cells))) cell)"
  shows "expand_grid cells = Inl IndexError"
  using paints_cells[of "nat (Max (cell_row ` set cells))" "nat (Max (cell_col ` set cells))" cells]
    assms(2) dims_replicate
  unfolding expand_grid_unfold[OF assms(1)] paints_def by auto

lemma expand_grid_succeeds:
  assumes "cells \<noteq> []"
    and "\<forall>cell\<in>set cells. cell_ok (nat (Max (cell_row ` set cells))) (nat (Max (cell_col ` set cells))) cell"
  shows "\<exists>g. expand_grid cells = Inr g \<and>
           dims (nat (Max (cell_row ` set cells))) (nat (Max (cell_col ` set cells))) g \<and>
           (\<forall>a<nat (Max (cell_row ` set cells)). \<forall>b<nat (Max (cell_col ` set cells)).
              g ! a ! b =
                (case find (\<lambda>cell. cell_hits (nat (Max (cell_row ` set cells)))
                                    (nat (Max (cell_col ` set cells))) cell a b) (rev cells) of
                   None \<Rightarrow> '''' | Some cell \<Rightarrow> cell_text cell))"
proof -
  let ?n = "nat (Max (cell_row ` set cells))" and ?m = "nat (Max (cell_col ` set cells))"
  have d: "dims ?n ?m (replicate ?n (replicate ?m ''''))"
    by (rule dims_replicate)
  from paints_cells[of ?n ?m cells] d assms(2)
  obtain g where g: "foldE apply_cell cells (replicate ?n (replicate ?m '''')) = Inr g"
      "dims ?n ?m g"
      "\<forall>a<?n. \<forall>b<?m. g ! a ! b =
          (case find (\<lambda>cell. cell_hits ?n ?m cell a b) (rev cells) of
             None \<Rightarrow> replicate ?n (replicate ?m '''') ! a ! b | Some cell \<Rightarrow> cell_text cell)"
    unfolding paints_def by (auto split: if_splits)
  have "\<forall>a<?n. \<forall>b<?m. g ! a ! b =
          (case find (\<lambda>cell. cell_hits ?n ?m cell a b) (rev cells) of
             None \<Rightarrow> '''' | Some cell \<Rightarrow> cell_text cell)"
    using g(3) by (simp split: option.splits)
  with g(1,2) show ?thesis
    unfolding expand_grid_unfold[OF assms(1)] by blast
qed

lemmas cell_fields = cell_row_def cell_col_def cell_rowspan_def cell_colspan_def cell_text_def

text \<open>
  C8. Grid expansion of an empty cell sequence fails and returns no grid: \<open>max\<close> has
  nothing to take the maximum of. The exception is Python's \<open>ValueError\<close>, the failure
  the specification calls \<open>EmptyTableError\<close>.
\<close>

theorem empty_cells_value_error:
  "expand_grid [] = Inl ValueError \<and> create_expanded_dataframe [] = Inl ValueError"
  by (simp add: expand_grid_def create_expanded_dataframe_def)

text \<open>
  C2, as stated, fails: the code has no bounds test, so a footprint position outside the
  grid is not skipped. The specification's own example, a cell at row 2 with rowspan 3 in
  a grid of two rows, raises \<open>IndexError\<close>.
\<close>

theorem clipping_counterexample:
  "expand_grid [(2, 1, 3, 1, ''Y'')] = Inl IndexError"
  by code_simp

text \<open>
  C2, amended. For every non-empty cell list whose cells have \<open>row \<ge> 1\<close> and
  \<open>col \<ge> 1\<close>, grid expansion succeeds exactly when every footprint position of every
  cell lies inside \<open>[0, max_row) \<times> [0, max_col)\<close>, and raises \<open>IndexError\<close> exactly
  when some footprint position lies outside: such a position is never skipped.
\<close>

theorem expand_grid_index_error:
  assumes "cells \<noteq> []"
    and "\<forall>cell\<in>set cells. 1 \<le> cell_row cell \<and> 1 \<le> cell_col cell"
  shows "((\<exists>g. expand_grid cells = Inr g) \<longleftrightarrow>
            (\<forall>cell\<in>set cells.
               footprint_inside (Max (cell_row ` set cells)) (Max (cell_col ` set cells)) cell)) \<and>
         (expand_grid cells = Inl IndexError \<longleftrightarrow>
            (\<exists>cell\<in>set cells.
               \<not> footprint_inside (Max (cell_row ` set cells)) (Max (cell_col ` set cells)) cell))"
proof -
  let ?mr = "Max (cell_row ` set cells)" and ?mc = "Max (cell_col ` set cells)"
  have eq: "(\<forall>cell\<in>set cells. cell_ok (nat ?mr) (nat ?mc) cell) \<longleftrightarrow>
            (\<forall>cell\<in>set cells. footprint_inside ?mr ?mc cell)"
    using assms(2) inside_ok ok_inside by blast
  show ?thesis
  proof (cases "\<forall>cell\<in>set cells. footprint_inside ?mr ?mc cell")
    case True
    with eq expand_grid_succeeds[OF assms(1)] obtain g where "expand_grid cells = Inr g"
      by blast
    with True show ?thesis by auto
  next
    case False
    with eq expand_grid_fails[OF assms(1)] have "expand_grid cells = Inl IndexError"
      by blast
    with False show ?thesis by auto
  qed
qed

text \<open>
  An instance: a cell anchored at the last row whose rowspan exceeds the remaining rows
  makes the expansion fail; with rowspan 1 the same cells expand.
\<close>

theorem expand_grid_index_error_witness:
  "([(1, 1, 1, 1, ''A''), (2, 1, 3, 1, ''Y'')] :: cell list) \<noteq> [] \<and>
   1 \<le> cell_row (1, 1, 1, 1, ''A'') \<and> 1 \<le> cell_col (1, 1, 1, 1, ''A'') \<and>
   1 \<le> cell_row (2, 1, 3, 1, ''Y'') \<and> 1 \<le> cell_col (2, 1, 3, 1, ''Y'') \<and>
   expand_grid [(1, 1, 1, 1, ''A''), (2, 1, 3, 1, ''Y'')] = Inl IndexError \<and>
   (\<exists>g. expand_grid [(1, 1, 1, 1, ''A''), (2, 1, 1, 1, ''Y'')] = Inr g)"
  using expand_grid_index_error[of "[(1, 1, 1, 1, ''A''), (2, 1, 3, 1, ''Y'')]"]
    expand_grid_index_error[of "[(1, 1, 1, 1, ''A''), (2, 1, 1, 1, ''Y'')]"]
  by (simp add: footprint_inside_def cell_fields)

text \<open>
  C3, as stated, fails for the same reason: the single cell at \<open>(1, 1)\<close> with rowspan 2
  and colspan 2 has \<open>max_row = max_col = 1\<close>, and its expansion raises \<open>IndexError\<close>
  instead of producing a grid.
\<close>

theorem coverage_counterexample:
  "expand_grid [(1, 1, 2, 2, ''X'')] = Inl IndexError"
  by code_simp

text \<open>
  C3, amended. For every non-empty list of cells whose footprints all lie inside
  \<open>[0, max_row) \<times> [0, max_col)\<close>, with \<open>max_row = max(cell.row)\<close> and
  \<open>max_col = max(cell.col)\<close>, grid expansion produces a grid of exactly \<open>max_row\<close> rows
  and \<open>max_col\<close> columns in which each position holds the text of the last cell, in input
  order, whose footprint contains it, and the empty string when no footprint does.
\<close>

theorem expand_grid_content:
  assumes "cells \<noteq> []"
    and "\<forall>cell\<in>set cells.
           footprint_inside (Max (cell_row ` set cells)) (Max (cell_col ` set cells)) cell"
  shows "\<exists>g. expand_grid cells = Inr g \<and>
           length g = nat (Max (cell_row ` set cells)) \<and>
           (\<forall>rw\<in>set g. length rw = nat (Max (cell_col ` set cells))) \<and>
           (\<forall>r<nat (Max (cell_row ` set cells)). \<forall>c<nat (Max (cell_col ` set cells)).
              g ! r ! c =
                (case last_covering cells r c of None \<Rightarrow> '''' | Some cell \<Rightarrow> cell_text cell))"
proof -
  let ?mr = "Max (cell_row ` set cells)" and ?mc = "Max (cell_col ` set cells)"
  have "\<forall>cell\<in>set cells. cell_ok (nat ?mr) (nat ?mc) cell"
    using assms(2) inside_ok by blast
  from expand_grid_succeeds[OF assms(1) this]
  obtain g where g: "expand_grid cells = Inr g" "dims (nat ?mr) (nat ?mc) g"
    "\<forall>a<nat ?mr. \<forall>b<nat ?mc. g ! a ! b =
        (case find (\<lambda>cell. cell_hits (nat ?mr) (nat ?mc) cell a b) (rev cells) of
           None \<Rightarrow> '''' | Some cell \<Rightarrow> cell_text cell)"
    by blast
  have "find (\<lambda>cell. cell_hits (nat ?mr) (nat ?mc) cell a b) (rev cells) = last_covering cells a b"
    if "a < nat ?mr" "b < nat ?mc" for a b
    unfolding last_covering_def using assms(2) that
    by (intro find_cong refl) (simp add: inside_hits)
  with g(3) have "\<forall>a<nat ?mr. \<forall>b<nat ?mc. g ! a ! b =
        (case last_covering cells a b of None \<Rightarrow> '''' | Some cell \<Rightarrow> cell_text cell)"
    by simp
  with g(1,2) show ?thesis
    unfolding dims_def by blast
qed

text \<open>
  An instance with a spanning cell and a later cell that overlaps it: the later cell wins
  at the shared position.
\<close>

theorem expand_grid_content_witness:
  "([(1, 1, 2, 2, ''X''), (2, 2, 1, 1, ''B'')] :: cell list) \<noteq> [] \<and>
   footprint_inside 2 2 (1, 1, 2, 2, ''X'') \<and> footprint_inside 2 2 (2, 2, 1, 1, ''B'') \<and>
   (\<exists>g. expand_grid [(1, 1, 2, 2, ''X''), (2, 2, 1, 1, ''B'')] = Inr g \<and> length g = 2 \<and>
        g ! 0 ! 0 = ''X'' \<and> g ! 0 ! 1 = ''X'' \<and> g ! 1 ! 0 = ''X'' \<and> g ! 1 ! 1 = ''B'')"
proof -
  let ?cells = "[(1, 1, 2, 2, ''X''), (2, 2, 1, 1, ''B'')] :: cell list"
  have m: "Max (cell_row ` set ?cells) = 2" "Max (cell_col ` set ?cells) = 2"
    by (simp_all add: cell_fields)
  have h: "\<forall>cell\<in>set ?cells. footprint_inside 2 2 cell"
    by (simp add: footprint_inside_def cell_fields)
  from expand_grid_content[of ?cells] h obtain g where g: "expand_grid ?cells = Inr g"
    "length g = 2"
    "\<forall>r<2. \<forall>c<2. g ! r ! c =
        (case last_covering ?cells r c of None \<Rightarrow> '''' | Some cell \<Rightarrow> cell_text cell)"
    unfolding m by auto
  have "g ! 0 ! 0 = ''X''" "g ! 0 ! 1 = ''X''" "g ! 1 ! 0 = ''X''" "g ! 1 ! 1 = ''B''"
    using g(3) by (simp_all add: last_covering_def covers_def cell_fields)
  with g(1,2) h show ?thesis by simp
qed

section \<open>Properties of the document assembler\<close>

lemma foldE_append:
  "foldE f (xs @ ys) s = (case foldE f xs s of Inl e \<Rightarrow> Inl e | Inr s' \<Rightarrow> foldE f ys s')"
  by (induction xs arbitrary: s) (auto split: sum.splits)

lemma in_keys_lookup: "k \<in> fst ` set doc \<Longrightarrow> \<exists>v. map_of doc k = Some v"
  by (cases "map_of doc k") (simp_all add: map_of_eq_None_iff)

lemma append_page_Some:
  "map_of doc k = Some v \<Longrightarrow> append_page k s doc = Inr (AList.update k (v @ s) doc)"
  by (simp add: append_page_def)

lemma update_keys_present: "k \<in> fst ` set doc \<Longrightarrow> map fst (AList.update k v doc) = map fst doc"
  by (simp add: update_keys)

lemma append_page_keys:
  assumes "append_page k s doc = Inr d"
  shows "map fst d = map fst doc"
proof -
  from assms obtain v where v: "map_of doc k = Some v" and d: "d = AList.update k (v @ s) doc"
    by (auto simp: append_page_def split: option.splits)
  from v have "k \<in> fst ` set doc"
    by (metis map_of_eq_None_iff option.distinct(1))
  with d show ?thesis by (simp add: update_keys_present)
qed

lemma add_text_Some:
  assumes "map_of (parsed_doc st) (curr_page st) = Some v"
  shows "add_text t sep st =
           Inr (st\<lparr>parsed_doc := AList.update (curr_page st) (v @ t @ sep) (parsed_doc st)\<rparr>)"
proof -
  have "map_of (AList.update (curr_page st) (v @ t) (parsed_doc st)) (curr_page st) = Some (v @ t)"
    by (simp add: update_conv')
  then show ?thesis
    using assms by (simp add: add_text_def append_page_Some)
qed

lemma add_text_keys:
  assumes "add_text t sep st = Inr st'"
  shows "map fst (parsed_doc st') = map fst (parsed_doc st) \<and> curr_page st' = curr_page st"
proof -
  from assms obtain d d' where "append_page (curr_page st) t (parsed_doc st) = Inr d"
      "append_page (curr_page st) sep d = Inr d'" "st' = st\<lparr>parsed_doc := d'\<rparr>"
    by (auto simp: add_text_def split: sum.splits)
  then show ?thesis
    using append_page_keys by fastforce
qed

lemma add_table_error:
  "table_markdown md raw = Inl e \<Longrightarrow> add_table md k raw doc = Inl e"
  by (simp add: add_table_def)

lemma add_table_keys:
  assumes "add_table md k raw doc = Inr d"
  shows "map fst d = map fst doc"
proof -
  from assms obtain r d1 where "append_page k r doc = Inr d1" "append_page k [CHR 0x0A] d1 = Inr d"
    by (auto simp: add_table_def split: sum.splits)
  then show ?thesis
    using append_page_keys by fastforce
qed

lemma add_table_ok:
  assumes "table_markdown md raw = Inr r" "k \<in> fst ` set doc"
  shows "\<exists>d. add_table md k raw doc = Inr d"
proof -
  from assms(2) obtain v where v: "map_of doc k = Some v"
    using in_keys_lookup by fastforce
  then have "map_of (AList.update k (v @ r) doc) k = Some (v @ r)"
    by (simp add: update_conv')
  with v assms(1) show ?thesis
    by (simp add: add_table_def append_page_Some)
qed

lemma add_tables_keys:
  "foldE (add_table md k) ts doc = Inr d \<Longrightarrow> map fst d = map fst doc"
proof (induction ts arbitrary: doc)
  case Nil
  then show ?case by simp
next
  case (Cons t ts)
  then obtain d1 where d1: "add_table md k t doc = Inr d1" "foldE (add_table md k) ts d1 = Inr d"
    by (auto split: sum.splits)
  from Cons.IH[OF d1(2)] add_table_keys[OF d1(1)] show ?case by simp
qed

lemma add_tables_outcome:
  "k \<in> fst ` set doc \<Longrightarrow>
   (case first_error (map (table_markdown md) ts) of
      Some e \<Rightarrow> foldE (add_table md k) ts doc = Inl e
    | None \<Rightarrow> (\<exists>d. foldE (add_table md k) ts doc = Inr d))"
proof (induction ts arbitrary: doc)
  case Nil
  then show ?case by simp
next
  case (Cons t ts)
  show ?case
  proof (cases "table_markdown md t")
    case (Inl e)
    then show ?thesis by (simp add: add_table_error)
  next
    case (Inr r)
    with Cons.prems obtain d1 where d1: "add_table md k t doc = Inr d1"
      using add_table_ok by blast
    then have "map fst d1 = map fst doc" by (rule add_table_keys)
    then have "fst ` set d1 = fst ` set doc" by (metis set_map)
    with Cons.prems have "k \<in> fst ` set d1" by simp
    from Cons.IH[OF this] Inr d1 show ?thesis by (simp split: option.splits)
  qed
qed

lemma wf_state_lookup: "wf_state st \<Longrightarrow> \<exists>v. map_of (parsed_doc st) (curr_page st) = Some v"
  unfolding wf_state_def by (blast intro: in_keys_lookup)

lemma wf_state_keys:
  "wf_state st \<Longrightarrow> map fst (parsed_doc st') = map fst (parsed_doc st) \<Longrightarrow>
   curr_page st' = curr_page st \<Longrightarrow> wf_state st'"
  unfolding wf_state_def by (metis set_map)

lemma step_PageBreak:
  "el_category el = ''PageBreak'' \<Longrightarrow>
   step md cnt el st =
     Inr \<lparr>parsed_doc = AList.update (Page (page_number st + 1)) [] (parsed_doc st),
          curr_page = Page (page_number st + 1), page_number = page_number st + 1\<rparr>"
  by (simp add: step_def)

lemma step_ListItem:
  "el_category el = ''ListItem'' \<Longrightarrow>
   step md cnt el st =
     (if cnt (el_text el) < 10 \<and> cnt (el_text el) \<noteq> 0
      then add_text (el_text el) [CHR 0x0A] st else Inr st)"
  by (simp add: step_def)

lemma step_NarrativeText:
  "el_category el = ''NarrativeText'' \<Longrightarrow>
   step md cnt el st =
     (if cnt (el_text el) < 10 \<and> cnt (el_text el) \<noteq> 0
      then add_text (el_text el) [CHR 0x20] st else Inr st)"
  by (simp add: step_def)

lemma step_Text:
  "el_category el = ''Text'' \<Longrightarrow>
   step md cnt el st =
     (if cnt (el_text el) < 10 \<and> cnt (el_text el) \<noteq> 0
      then add_text (el_text el) [CHR 0x20] st else Inr st)"
  by (simp add: step_def)

lemma step_Title:
  "el_category el = ''Title'' \<Longrightarrow>
   step md cnt el st =
     (if page_number st = 1 \<or> (cnt (el_text el) < 10 \<and> cnt (el_text el) \<noteq> 0)
      then add_text (el_text el) [CHR 0x0A] st else Inr st)"
  by (auto simp: step_def)

lemma step_Table:
  "el_category el = ''Table'' \<Longrightarrow>
   step md cnt el st =
     (case append_page (curr_page st) [CHR 0x0A] (parsed_doc st) of
        Inl e \<Rightarrow> Inl e
      | Inr d \<Rightarrow>
          (case el_tables el of
             ServiceFailure \<Rightarrow> Inl ExternalServiceError
           | Tables tables \<Rightarrow>
               (case foldE (add_table md (curr_page st)) tables d of
                  Inl e \<Rightarrow> Inl e
                | Inr d' \<Rightarrow>
                    Inr \<lparr>parsed_doc = d', curr_page = curr_page st,
                         page_number = el_page_number el\<rparr>)))"
  by (simp add: step_def)

lemma step_other:
  "el_category el \<notin> {''PageBreak'', ''ListItem'', ''NarrativeText'', ''Table'', ''Text'', ''Title''} \<Longrightarrow>
   step md cnt el st = Inr st"
  by (simp add: step_def)

lemma add_text_wf:
  assumes "wf_state st" "add_text t sep st = Inr st'"
  shows "wf_state st'"
  using add_text_keys[OF assms(2)] by (intro wf_state_keys[OF assms(1)]) simp_all

lemma step_wf:
  assumes wf: "wf_state st" and st: "step md cnt el st = Inr st'"
  shows "wf_state st'"
proof -
  consider (pb) "el_category el = ''PageBreak''" | (li) "el_category el = ''ListItem''"
    | (nt) "el_category el = ''NarrativeText''" | (tab) "el_category el = ''Table''"
    | (tx) "el_category el = ''Text''" | (ti) "el_category el = ''Title''"
    | (other) "el_category el \<notin> {''PageBreak'', ''ListItem'', ''NarrativeText'', ''Table'', ''Text'', ''Title''}"
    by blast
  then show ?thesis
  proof cases
    case pb
    from st have st': "st' = \<lparr>parsed_doc = AList.update (Page (page_number st + 1)) [] (parsed_doc st),
        curr_page = Page (page_number st + 1), page_number = page_number st + 1\<rparr>"
      by (simp add: step_PageBreak[OF pb])
    from wf show ?thesis
      unfolding st' wf_state_def by (simp add: distinct_update dom_update)
  next
    case li
    from st wf show ?thesis
      unfolding step_ListItem[OF li] by (auto split: if_splits dest: add_text_wf[OF wf])
  next
    case nt
    from st wf show ?thesis
      unfolding step_NarrativeText[OF nt] by (auto split: if_splits dest: add_text_wf[OF wf])
  next
    case tx
    from st wf show ?thesis
      unfolding step_Text[OF tx] by (auto split: if_splits dest: add_text_wf[OF wf])
  next
    case ti
    from st wf show ?thesis
      unfolding step_Title[OF ti] by (auto split: if_splits dest: add_text_wf[OF wf])
  next
    case other
    from st wf show ?thesis
      unfolding step_other[OF other] by simp
  next
    case tab
    from st obtain d ts d' where d: "append_page (curr_page st) [CHR 0x0A] (parsed_doc st) = Inr d"
      and d': "foldE (add_table md (curr_page st)) ts d = Inr d'"
      and st': "st' = \<lparr>parsed_doc = d', curr_page = curr_page st, page_number = el_page_number el\<rparr>"
      unfolding step_Table[OF tab] by (auto split: sum.splits detection.splits)
    from append_page_keys[OF d] add_tables_keys[OF d'] have "map fst d' = map fst (parsed_doc st)"
      by simp
    then show ?thesis
      by (intro wf_state_keys[OF wf]) (simp_all add: st')
  qed
qed

lemma foldE_step_wf:
  "wf_state st \<Longrightarrow> foldE (step md cnt) els st = Inr st' \<Longrightarrow> wf_state st'"
proof (induction els arbitrary: st)
  case Nil
  then show ?case by simp
next
  case (Cons el els)
  then obtain st1 where "step md cnt el st = Inr st1" "foldE (step md cnt) els st1 = Inr st'"
    by (auto split: sum.splits)
  with Cons.IH Cons.prems(1) step_wf show ?case by blast
qed

lemma wf_initial: "wf_state initial_state"
  by (simp add: wf_state_def initial_state_def)

lemma run_wf: "run_elements md cnt els = Inr st \<Longrightarrow> wf_state st"
  unfolding run_elements_def using wf_initial by (rule foldE_step_wf)

lemma map_of_filter_distinct:
  "distinct (map fst xs) \<Longrightarrow>
   map_of (filter P xs) k = Some v \<longleftrightarrow> map_of xs k = Some v \<and> P (k, v)"
proof (induction xs)
  case Nil
  then show ?case by simp
next
  case (Cons x xs)
  obtain a b where x: "x = (a, b)" by (cases x)
  from Cons.prems have a: "a \<notin> fst ` set xs" and d: "distinct (map fst xs)"
    by (simp_all add: x)
  from a have none: "map_of (filter P xs) a = None"
    by (simp add: map_of_eq_None_iff image_iff) 
  show ?case
    using Cons.IH[OF d] none by (auto simp: x)
qed

lemma run_elements_append:
  "run_elements md cnt (pre @ post) =
     (case run_elements md cnt pre of Inl e \<Rightarrow> Inl e | Inr st \<Rightarrow> foldE (step md cnt) post st)"
  by (simp add: run_elements_def foldE_append)

lemma run_lookup:
  "run_elements md cnt pre = Inr st \<Longrightarrow> \<exists>v. map_of (parsed_doc st) (curr_page st) = Some v"
  by (intro wf_state_lookup run_wf)

lemma table_step_error:
  assumes "map_of (parsed_doc st) (curr_page st) = Some v" "el_category el = ''Table''"
    and "table_error md el = Some e"
  shows "step md cnt el st = Inl e"
proof (cases "el_tables el")
  case ServiceFailure
  with assms show ?thesis
    by (simp add: step_Table append_page_Some table_error_def)
next
  case (Tables ts)
  let ?d = "AList.update (curr_page st) (v @ [CHR 0x0A]) (parsed_doc st)"
  have "curr_page st \<in> fst ` set ?d"
    by (simp add: dom_update)
  from add_tables_outcome[OF this, of md ts] assms(3) Tables
  have "foldE (add_table md (curr_page st)) ts ?d = Inl e"
    by (simp add: table_error_def)
  with assms(1,2) Tables show ?thesis
    by (simp add: step_Table append_page_Some)
qed

section \<open>The assembler claims\<close>

text \<open>
  C4. In the state reached after any prefix of the element stream, a \<open>Title\<close> element
  appends its text and a newline to the current page when the page number is 1, whatever
  its repetition count; otherwise it does so exactly when the count of its text is
  strictly between 0 and 10, and leaves the state unchanged when it is not.
\<close>

theorem title_rule:
  assumes "run_elements md cnt pre = Inr st" and "el_category el = ''Title''"
  shows "\<exists>v. map_of (parsed_doc st) (curr_page st) = Some v \<and>
           step md cnt el st =
             Inr (if page_number st = 1 \<or> (0 < cnt (el_text el) \<and> cnt (el_text el) < 10)
                  then st\<lparr>parsed_doc :=
                         AList.update (curr_page st) (v @ el_text el @ [CHR 0x0A]) (parsed_doc st)\<rparr>
                  else st)"
proof -
  from run_lookup[OF assms(1)] obtain v where v: "map_of (parsed_doc st) (curr_page st) = Some v"
    by blast
  then show ?thesis
    by (auto simp: step_Title[OF assms(2)] add_text_Some[OF v])
qed

text \<open>
  An instance: a title counted 50 times is kept on page 1 and suppressed on page 2.
\<close>

theorem title_rule_witness:
  "run_elements (\<lambda>cols rows. []) (\<lambda>t. 50) [] = Inr initial_state \<and>
   step (\<lambda>cols rows. []) (\<lambda>t. 50)
     \<lparr>el_category = ''Title'', el_text = ''T'', el_page_number = 1, el_tables = Tables []\<rparr>
     initial_state =
     Inr \<lparr>parsed_doc = [(Page 1, ''T'' @ [CHR 0x0A])], curr_page = Page 1, page_number = 1\<rparr> \<and>
   run_elements (\<lambda>cols rows. []) (\<lambda>t. 50)
     [\<lparr>el_category = ''PageBreak'', el_text = [], el_page_number = 1, el_tables = Tables []\<rparr>] =
     Inr \<lparr>parsed_doc = [(Page 1, []), (Page 2, [])], curr_page = Page 2, page_number = 2\<rparr> \<and>
   step (\<lambda>cols rows. []) (\<lambda>t. 50)
     \<lparr>el_category = ''Title'', el_text = ''T'', el_page_number = 1, el_tables = Tables []\<rparr>
     \<lparr>parsed_doc = [(Page 1, []), (Page 2, [])], curr_page = Page 2, page_number = 2\<rparr> =
     Inr \<lparr>parsed_doc = [(Page 1, []), (Page 2, [])], curr_page = Page 2, page_number = 2\<rparr>"
proof -
  let ?md = "\<lambda>(cols :: string list) (rows :: string list list). [] :: string"
  let ?cnt = "\<lambda>t :: string. 50 :: nat"
  let ?T = "\<lparr>el_category = ''Title'', el_text = ''T'', el_page_number = 1, el_tables = Tables []\<rparr>"
  let ?PB = "\<lparr>el_category = ''PageBreak'', el_text = [], el_page_number = 1, el_tables = Tables []\<rparr>"
  let ?st2 = "\<lparr>parsed_doc = [(Page 1, []), (Page 2, [])], curr_page = Page 2, page_number = 2\<rparr>"
  have r1: "run_elements ?md ?cnt [] = Inr initial_state"
    by (simp add: run_elements_def)
  have r2: "run_elements ?md ?cnt [?PB] = Inr ?st2"
    by (simp add: run_elements_def step_PageBreak initial_state_def)
  have c: "el_category ?T = ''Title''" by simp
  from title_rule[OF r1 c] title_rule[OF r2 c] r1 r2 show ?thesis
    by (auto simp: initial_state_def)
qed

text \<open>
  C5. In the state reached after any prefix of the element stream, a \<open>ListItem\<close>,
  \<open>NarrativeText\<close> or \<open>Text\<close> element appends its text to the current page exactly when
  the repetition count of that text is at least 1 and less than 10, followed by a newline
  for a \<open>ListItem\<close> and by a space for the other two; otherwise the state is unchanged.
  The counter is any counter, in particular the one \<open>prepare_counter\<close> builds from the
  whole document.
\<close>

theorem text_rule:
  assumes "run_elements md cnt pre = Inr st"
    and "el_category el \<in> {''ListItem'', ''NarrativeText'', ''Text''}"
  shows "\<exists>v. map_of (parsed_doc st) (curr_page st) = Some v \<and>
           step md cnt el st =
             Inr (if 1 \<le> cnt (el_text el) \<and> cnt (el_text el) < 10
                  then st\<lparr>parsed_doc :=
                         AList.update (curr_page st)
                           (v @ el_text el @
                              (if el_category el = ''ListItem'' then [CHR 0x0A] else '' ''))
                           (parsed_doc st)\<rparr>
                  else st)"
proof -
  from run_lookup[OF assms(1)] obtain v where v: "map_of (parsed_doc st) (curr_page st) = Some v"
    by blast
  from assms(2) consider "el_category el = ''ListItem''" | "el_category el = ''NarrativeText''"
    | "el_category el = ''Text''" by blast
  then show ?thesis
  proof cases
    case 1
    with v show ?thesis by (auto simp: step_ListItem add_text_Some[OF v])
  next
    case 2
    with v show ?thesis by (auto simp: step_NarrativeText add_text_Some[OF v])
  next
    case 3
    with v show ?thesis by (auto simp: step_Text add_text_Some[OF v])
  qed
qed

text \<open>
  An instance: a text counted 9 times is kept, with its separator; counted 10 times it is
  suppressed.
\<close>

theorem text_rule_witness:
  "run_elements (\<lambda>cols rows. []) (\<lambda>t. 9) [] = Inr initial_state \<and>
   step (\<lambda>cols rows. []) (\<lambda>t. 9)
     \<lparr>el_category = ''NarrativeText'', el_text = ''abc'', el_page_number = 1, el_tables = Tables []\<rparr>
     initial_state =
     Inr \<lparr>parsed_doc = [(Page 1, ''abc '')], curr_page = Page 1, page_number = 1\<rparr> \<and>
   step (\<lambda>cols rows. []) (\<lambda>t. 9)
     \<lparr>el_category = ''ListItem'', el_text = ''abc'', el_page_number = 1, el_tables = Tables []\<rparr>
     initial_state =
     Inr \<lparr>parsed_doc = [(Page 1, ''abc'' @ [CHR 0x0A])], curr_page = Page 1, page_number = 1\<rparr> \<and>
   run_elements (\<lambda>cols rows. []) (\<lambda>t. 10) [] = Inr initial_state \<and>
   step (\<lambda>cols rows. []) (\<lambda>t. 10)
     \<lparr>el_category = ''NarrativeText'', el_text = ''abc'', el_page_number = 1, el_tables = Tables []\<rparr>
     initial_state = Inr initial_state"
proof -
  let ?md = "\<lambda>(cols :: string list) (rows :: string list list). [] :: string"
  let ?N = "\<lparr>el_category = ''NarrativeText'', el_text = ''abc'', el_page_number = 1, el_tables = Tables []\<rparr>"
  let ?L = "\<lparr>el_category = ''ListItem'', el_text = ''abc'', el_page_number = 1, el_tables = Tables []\<rparr>"
  have r: "run_elements ?md cnt [] = Inr initial_state" for cnt
    by (simp add: run_elements_def)
  have n: "el_category ?N \<in> {''ListItem'', ''NarrativeText'', ''Text''}"
    and l: "el_category ?L \<in> {''ListItem'', ''NarrativeText'', ''Text''}"
    by simp_all
  from text_rule[OF r n, of "\<lambda>t. 9"] text_rule[OF r l, of "\<lambda>t. 9"] text_rule[OF r n, of "\<lambda>t. 10"] r
  show ?thesis
    by (auto simp: initial_state_def)
qed

text \<open>
  C10. The counter is built from the \<open>Title\<close>, \<open>Text\<close> and \<open>NarrativeText\<close> elements
  only. A \<open>ListItem\<close> whose text is the text of none of them has count 0, and processing
  it changes nothing, in any state.
\<close>

theorem uncounted_list_item_suppressed:
  assumes "el_category el = ''ListItem''"
    and "\<forall>e\<in>set elements.
           el_category e \<in> {''Title'', ''Text'', ''NarrativeText''} \<longrightarrow> el_text e \<noteq> el_text el"
  shows "prepare_counter elements (el_text el) = 0 \<and>
         step md (prepare_counter elements) el st = Inr st"
proof -
  have "prepare_counter elements (el_text el) = 0"
    using assms(2) by (auto simp: prepare_counter_def Let_def count_list_0_iff)
  then show ?thesis
    by (simp add: step_ListItem[OF assms(1)])
qed

text \<open>
  An instance: the list item of a document made of one title and that list item.
\<close>

theorem uncounted_list_item_suppressed_witness:
  "prepare_counter
     [\<lparr>el_category = ''Title'', el_text = ''T'', el_page_number = 1, el_tables = Tables []\<rparr>,
      \<lparr>el_category = ''ListItem'', el_text = ''item'', el_page_number = 1, el_tables = Tables []\<rparr>]
     ''item'' = 0 \<and>
   step (\<lambda>cols rows. [])
     (prepare_counter
        [\<lparr>el_category = ''Title'', el_text = ''T'', el_page_number = 1, el_tables = Tables []\<rparr>,
         \<lparr>el_category = ''ListItem'', el_text = ''item'', el_page_number = 1, el_tables = Tables []\<rparr>])
     \<lparr>el_category = ''ListItem'', el_text = ''item'', el_page_number = 1, el_tables = Tables []\<rparr>
     \<lparr>parsed_doc = [(Page 1, ''T'' @ [CHR 0x0A])], curr_page = Page 1, page_number = 1\<rparr> =
   Inr \<lparr>parsed_doc = [(Page 1, ''T'' @ [CHR 0x0A])], curr_page = Page 1, page_number = 1\<rparr>"
  using uncounted_list_item_suppressed[
      of "\<lparr>el_category = ''ListItem'', el_text = ''item'', el_page_number = 1, el_tables = Tables []\<rparr>"
         "[\<lparr>el_category = ''Title'', el_text = ''T'', el_page_number = 1, el_tables = Tables []\<rparr>,
           \<lparr>el_category = ''ListItem'', el_text = ''item'', el_page_number = 1, el_tables = Tables []\<rparr>]"
         "\<lambda>cols rows. []"
         "\<lparr>parsed_doc = [(Page 1, ''T'' @ [CHR 0x0A])], curr_page = Page 1, page_number = 1\<rparr>"]
  by simp

text \<open>
  C6. A \<open>PageBreak\<close> always succeeds, moves to page \<open>n + 1\<close> (\<open>n\<close> the current page
  number) and sets the entry of that key to the empty string, whether or not the key is
  already in the document; every other entry keeps its content.
\<close>

theorem pagebreak_reseeds:
  assumes "el_category el = ''PageBreak''"
  shows "\<exists>st'. step md cnt el st = Inr st' \<and>
           page_number st' = page_number st + 1 \<and>
           curr_page st' = Page (page_number st + 1) \<and>
           parsed_doc st' = AList.update (Page (page_number st + 1)) '''' (parsed_doc st) \<and>
           map_of (parsed_doc st') (Page (page_number st + 1)) = Some '''' \<and>
           (\<forall>k. k \<noteq> Page (page_number st + 1) \<longrightarrow>
                map_of (parsed_doc st') k = map_of (parsed_doc st) k)"
  by (simp add: step_PageBreak[OF assms] update_conv')

text \<open>
  An instance of the erasure: after a page break and a text on page 2, a \<open>Table\<close> whose
  metadata says page 1 moves the page number back to 1, and the next \<open>PageBreak\<close>
  empties the entry of page 2.
\<close>

theorem pagebreak_reseeds_witness:
  "run_elements (\<lambda>cols rows. []) (\<lambda>t. 1)
     [\<lparr>el_category = ''PageBreak'', el_text = [], el_page_number = 0, el_tables = Tables []\<rparr>,
      \<lparr>el_category = ''NarrativeText'', el_text = ''hello'', el_page_number = 0, el_tables = Tables []\<rparr>,
      \<lparr>el_category = ''Table'', el_text = [], el_page_number = 1, el_tables = Tables []\<rparr>] =
     Inr \<lparr>parsed_doc = [(Page 1, []), (Page 2, ''hello '' @ [CHR 0x0A])],
          curr_page = Page 2, page_number = 1\<rparr> \<and>
   (\<exists>st'. step (\<lambda>cols rows. []) (\<lambda>t. 1)
            \<lparr>el_category = ''PageBreak'', el_text = [], el_page_number = 0, el_tables = Tables []\<rparr>
            \<lparr>parsed_doc = [(Page 1, []), (Page 2, ''hello '' @ [CHR 0x0A])],
             curr_page = Page 2, page_number = 1\<rparr> = Inr st' \<and>
          curr_page st' = Page 2 \<and>
          parsed_doc st' = [(Page 1, []), (Page 2, [])])"
proof -
  let ?md = "\<lambda>(cols :: string list) (rows :: string list list). [] :: string"
  let ?PB = "\<lparr>el_category = ''PageBreak'', el_text = [], el_page_number = 0, el_tables = Tables []\<rparr>"
  let ?st = "\<lparr>parsed_doc = [(Page 1, []), (Page 2, ''hello '' @ [CHR 0x0A])],
              curr_page = Page 2, page_number = 1\<rparr>"
  have r: "run_elements ?md (\<lambda>t. 1)
     [?PB,
      \<lparr>el_category = ''NarrativeText'', el_text = ''hello'', el_page_number = 0, el_tables = Tables []\<rparr>,
      \<lparr>el_category = ''Table'', el_text = [], el_page_number = 1, el_tables = Tables []\<rparr>] = Inr ?st"
    by (simp add: run_elements_def step_PageBreak step_NarrativeText step_Table initial_state_def
        add_text_def append_page_def)
  have c: "el_category ?PB = ''PageBreak''" by simp
  from pagebreak_reseeds[OF c, of ?md "\<lambda>t. 1" ?st] r show ?thesis
    by auto
qed

text \<open>
  C9. The document that \<open>create_parsed_dictionary\<close> returns is the document accumulated
  by the loop without its entries of empty content, in the same order: a key has content
  \<open>v\<close> in the result exactly when it has content \<open>v\<close> in the accumulated document and
  \<open>v\<close> is not empty.
\<close>

theorem finalization_drops_empty_pages:
  assumes "create_parsed_dictionary md els cnt = Inr d"
  shows "\<exists>st. run_elements md cnt els = Inr st \<and>
           d = filter (\<lambda>(k, v). v \<noteq> '''') (parsed_doc st) \<and>
           (\<forall>k v. map_of d k = Some v \<longleftrightarrow> map_of (parsed_doc st) k = Some v \<and> v \<noteq> '''')"
proof -
  from assms obtain st where st: "run_elements md cnt els = Inr st"
    and d: "d = filter (\<lambda>(k, v). v \<noteq> '''') (parsed_doc st)"
    by (auto simp: create_parsed_dictionary_def split: sum.splits)
  from run_wf[OF st] have "distinct (map fst (parsed_doc st))"
    by (simp add: wf_state_def)
  then have "map_of d k = Some v \<longleftrightarrow> map_of (parsed_doc st) k = Some v \<and> v \<noteq> ''''" for k v
    unfolding d by (simp add: map_of_filter_distinct)
  with st d show ?thesis by blast
qed

text \<open>
  An instance: a title followed by a page break gives one page; the empty page 2 is
  dropped.
\<close>

theorem finalization_drops_empty_pages_witness:
  "create_parsed_dictionary (\<lambda>cols rows. []) 
     [\<lparr>el_category = ''Title'', el_text = ''T'', el_page_number = 0, el_tables = Tables []\<rparr>,
      \<lparr>el_category = ''PageBreak'', el_text = [], el_page_number = 0, el_tables = Tables []\<rparr>]
     (\<lambda>t. 1) = Inr [(Page 1, ''T'' @ [CHR 0x0A])] \<and>
   (\<exists>st. run_elements (\<lambda>cols rows. []) (\<lambda>t. 1)
      [\<lparr>el_category = ''Title'', el_text = ''T'', el_page_number = 0, el_tables = Tables []\<rparr>,
       \<lparr>el_category = ''PageBreak'', el_text = [], el_page_number = 0, el_tables = Tables []\<rparr>] = Inr st \<and>
      [(Page 1, ''T'' @ [CHR 0x0A])] = filter (\<lambda>(k, v). v \<noteq> '''') (parsed_doc st) \<and>
      map_of (parsed_doc st) (Page 1) = Some (''T'' @ [CHR 0x0A]))"
proof -
  let ?md = "\<lambda>(cols :: string list) (rows :: string list list). [] :: string"
  let ?els = "[\<lparr>el_category = ''Title'', el_text = ''T'', el_page_number = 0, el_tables = Tables []\<rparr>,
      \<lparr>el_category = ''PageBreak'', el_text = [], el_page_number = 0, el_tables = Tables []\<rparr>]"
  have c: "create_parsed_dictionary ?md ?els (\<lambda>t. 1) = Inr [(Page 1, ''T'' @ [CHR 0x0A])]"
    by (simp add: create_parsed_dictionary_def run_elements_def step_PageBreak step_Title
        initial_state_def add_text_def append_page_def)
  from finalization_drops_empty_pages[OF c] obtain st
    where st: "run_elements ?md (\<lambda>t. 1) ?els = Inr st"
      and f: "[(Page 1, ''T'' @ [CHR 0x0A])] = filter (\<lambda>(k, v). v \<noteq> []) (parsed_doc st)"
      and m: "\<forall>k v. map_of [(Page 1, ''T'' @ [CHR 0x0A])] k = Some v \<longleftrightarrow>
                map_of (parsed_doc st) k = Some v \<and> v \<noteq> []"
    by blast
  from m[rule_format, of "Page 1" "''T'' @ [CHR 0x0A]"]
  have "map_of (parsed_doc st) (Page 1) = Some (''T'' @ [CHR 0x0A])"
    by simp
  with c st f show ?thesis by blast
qed

text \<open>
  C1, as stated, fails: the assembler has no exception handler. With a table whose only
  cell record does not match the pattern, \<open>create_parsed_dictionary\<close> raises
  \<open>AttributeError\<close>, where the same stream with a table that renders nothing returns the
  document.
\<close>

theorem table_failure_counterexample:
  "create_parsed_dictionary (\<lambda>cols rows. [])
     [\<lparr>el_category = ''Title'', el_text = ''T'', el_page_number = 1, el_tables = Tables []\<rparr>,
      \<lparr>el_category = ''Table'', el_text = [], el_page_number = 1, el_tables = Tables [[''garbage'']]\<rparr>]
     (\<lambda>t. 1) = Inl AttributeError \<and>
   create_parsed_dictionary (\<lambda>cols rows. [])
     [\<lparr>el_category = ''Title'', el_text = ''T'', el_page_number = 1, el_tables = Tables []\<rparr>,
      \<lparr>el_category = ''Table'', el_text = [], el_page_number = 1, el_tables = Tables []\<rparr>]
     (\<lambda>t. 1) = Inr [(Page 1, ''T'' @ [CHR 0x0A, CHR 0x0A])]"
  by code_simp

text \<open>
  C1, amended. A failure raised while a \<open>Table\<close> element is processed (the external
  calls failing, or the first error among its detected tables: a malformed cell record, an
  empty cell list, an index out of range) propagates out of \<open>create_parsed_dictionary\<close>:
  whatever the elements before it accumulated and whatever follows, the call raises that
  error and returns no document.
\<close>

theorem table_failure_propagates:
  assumes "run_elements md cnt pre = Inr st" and "el_category el = ''Table''"
    and "table_error md el = Some e"
  shows "create_parsed_dictionary md (pre @ el # post) cnt = Inl e"
proof -
  from run_lookup[OF assms(1)] obtain v where "map_of (parsed_doc st) (curr_page st) = Some v"
    by blast
  from table_step_error[OF this assms(2,3)] have "step md cnt el st = Inl e" .
  with assms(1) show ?thesis
    by (simp add: create_parsed_dictionary_def run_elements_append)
qed

text \<open>
  An instance: a failure of the table detection service after a title aborts the whole
  document.
\<close>

theorem table_failure_propagates_witness:
  "run_elements (\<lambda>cols rows. []) (\<lambda>t. 1)
     [\<lparr>el_category = ''Title'', el_text = ''T'', el_page_number = 1, el_tables = Tables []\<rparr>] =
     Inr \<lparr>parsed_doc = [(Page 1, ''T'' @ [CHR 0x0A])], curr_page = Page 1, page_number = 1\<rparr> \<and>
   table_error (\<lambda>cols rows. [])
     \<lparr>el_category = ''Table'', el_text = [], el_page_number = 1, el_tables = ServiceFailure\<rparr> =
     Some ExternalServiceError \<and>
   create_parsed_dictionary (\<lambda>cols rows. [])
     ([\<lparr>el_category = ''Title'', el_text = ''T'', el_page_number = 1, el_tables = Tables []\<rparr>] @
      \<lparr>el_category = ''Table'', el_text = [], el_page_number = 1, el_tables = ServiceFailure\<rparr> #
      [\<lparr>el_category = ''NarrativeText'', el_text = ''after'', el_page_number = 1, el_tables = Tables []\<rparr>])
     (\<lambda>t. 1) = Inl ExternalServiceError"
proof -
  let ?md = "\<lambda>(cols :: string list) (rows :: string list list). [] :: string"
  let ?Tab = "\<lparr>el_category = ''Table'', el_text = [], el_page_number = 1, el_tables = ServiceFailure\<rparr>"
  have r: "run_elements ?md (\<lambda>t. 1)
     [\<lparr>el_category = ''Title'', el_text = ''T'', el_page_number = 1, el_tables = Tables []\<rparr>] =
     Inr \<lparr>parsed_doc = [(Page 1, ''T'' @ [CHR 0x0A])], curr_page = Page 1, page_number = 1\<rparr>"
    by (simp add: run_elements_def step_Title initial_state_def add_text_def append_page_def)
  have c: "el_category ?Tab = ''Table''" by simp
  have t: "table_error ?md ?Tab = Some ExternalServiceError"
    by (simp add: table_error_def)
  from table_failure_propagates[OF r c t] r t show ?thesis
    by simp
qed

end
